theory Spec2Isabelle
  imports Complex_Main
begin

section \<open>Python text primitives\<close>

text \<open>
  Python strings are modelled as \<open>string\<close>, read as ASCII text: the character classes
  below are the ASCII part of Python's Unicode classes, so text outside ASCII is outside
  the model.
\<close>

definition py_isspace :: "char \<Rightarrow> bool" where
  \<comment> \<open>\<open>str.isspace\<close> on ASCII: tab, LF, VT, FF, CR, the separators 0x1C-0x1F and space.\<close>
  "py_isspace c = (let n = (of_char c :: nat) in (9 \<le> n \<and> n \<le> 13) \<or> (28 \<le> n \<and> n \<le> 32))"

definition strip :: "string \<Rightarrow> string" where
  \<comment> \<open>\<open>str.strip()\<close>\<close>
  "strip s = rev (dropWhile py_isspace (rev (dropWhile py_isspace s)))"

definition upper_char :: "char \<Rightarrow> char" where
  "upper_char c = (let n = (of_char c :: nat) in if 97 \<le> n \<and> n \<le> 122 then char_of (n - 32) else c)"

definition lower_char :: "char \<Rightarrow> char" where
  "lower_char c = (let n = (of_char c :: nat) in if 65 \<le> n \<and> n \<le> 90 then char_of (n + 32) else c)"

definition upper :: "string \<Rightarrow> string" where
  \<comment> \<open>\<open>str.upper()\<close>\<close>
  "upper s = map upper_char s"

definition remove_spaces :: "string \<Rightarrow> string" where
  \<comment> \<open>\<open>s.replace(" ", "")\<close>\<close>
  "remove_spaces s = filter (\<lambda>c. c \<noteq> CHR '' '') s"

definition is_digit :: "char \<Rightarrow> bool" where
  "is_digit c = (let n = (of_char c :: nat) in 48 \<le> n \<and> n \<le> 57)"

definition digit_val :: "char \<Rightarrow> nat" where
  "digit_val c = of_char c - 48"

definition digit_char :: "nat \<Rightarrow> char" where
  "digit_char d = char_of (48 + d)"

definition pad2 :: "nat \<Rightarrow> string" where
  \<comment> \<open>\<open>"%02d" % n\<close> for \<open>n < 100\<close>, as \<open>strftime\<close> pads hours and minutes.\<close>
  "pad2 n = [digit_char (n div 10), digit_char (n mod 10)]"

section \<open>Time parsing and formatting\<close>

text \<open>
  \<open>datetime.strptime\<close> compiles its format into a regular expression, matches it at the
  start of the text (case-insensitively) and raises \<open>ValueError\<close> when there is no match
  or when text remains after the match. The two formats of the program give
  \<^verbatim>\<open>(?P<I>1[0-2]|0[1-9]|[1-9]):(?P<M>[0-5]\d|\d)(?P<p>am|pm)\<close> and
  \<^verbatim>\<open>(?P<H>2[0-3]|[0-1]\d|\d):(?P<M>[0-5]\d|\d)\<close>.
  Each group is modelled as the list of its matches at the head of the text, in the
  order of its alternatives, each with the text that remains; the regular expression's
  match is the first success of the whole sequence, as backtracking finds it.
  A parse result is the pair (hour, minute) of the \<open>datetime\<close> on 1900-01-01; \<open>None\<close>
  stands for \<open>ValueError\<close>.
\<close>

definition char_in :: "char \<Rightarrow> nat \<Rightarrow> nat \<Rightarrow> bool" where
  "char_in c lo hi = (let n = (of_char c :: nat) in 48 + lo \<le> n \<and> n \<le> 48 + hi)"

definition two_digits :: "(char \<Rightarrow> bool) \<Rightarrow> (char \<Rightarrow> bool) \<Rightarrow> string \<Rightarrow> (nat \<times> string) list" where
  "two_digits p q s = (case s of
       a # b # r \<Rightarrow> if p a \<and> q b then [(10 * digit_val a + digit_val b, r)] else []
     | _ \<Rightarrow> [])"

definition one_digit :: "(char \<Rightarrow> bool) \<Rightarrow> string \<Rightarrow> (nat \<times> string) list" where
  "one_digit p s = (case s of a # r \<Rightarrow> if p a then [(digit_val a, r)] else [] | _ \<Rightarrow> [])"

definition re_I :: "string \<Rightarrow> (nat \<times> string) list" where
  \<comment> \<open>\<^verbatim>\<open>1[0-2]|0[1-9]|[1-9]\<close>\<close>
  "re_I s = two_digits (\<lambda>c. c = CHR ''1'') (\<lambda>c. char_in c 0 2) s
          @ two_digits (\<lambda>c. c = CHR ''0'') (\<lambda>c. char_in c 1 9) s
          @ one_digit (\<lambda>c. char_in c 1 9) s"

definition re_H :: "string \<Rightarrow> (nat \<times> string) list" where
  \<comment> \<open>\<^verbatim>\<open>2[0-3]|[0-1]\d|\d\<close>\<close>
  "re_H s = two_digits (\<lambda>c. c = CHR ''2'') (\<lambda>c. char_in c 0 3) s
          @ two_digits (\<lambda>c. char_in c 0 1) is_digit s
          @ one_digit is_digit s"

definition re_M :: "string \<Rightarrow> (nat \<times> string) list" where
  \<comment> \<open>\<^verbatim>\<open>[0-5]\d|\d\<close>\<close>
  "re_M s = two_digits (\<lambda>c. char_in c 0 5) is_digit s @ one_digit is_digit s"

definition re_colon :: "string \<Rightarrow> string list" where
  "re_colon s = (case s of c # r \<Rightarrow> if c = CHR '':'' then [r] else [] | _ \<Rightarrow> [])"

definition re_p :: "string \<Rightarrow> (bool \<times> string) list" where
  \<comment> \<open>\<^verbatim>\<open>am|pm\<close>, ignoring case; the flag is True for pm.\<close>
  "re_p s = (case s of
       a # b # r \<Rightarrow>
         (if lower_char a = CHR ''a'' \<and> lower_char b = CHR ''m'' then [(False, r)] else [])
       @ (if lower_char a = CHR ''p'' \<and> lower_char b = CHR ''m'' then [(True, r)] else [])
     | _ \<Rightarrow> [])"

definition hour24 :: "nat \<Rightarrow> bool \<Rightarrow> nat" where
  \<comment> \<open>The hour of a 12-hour clock reading: 12 AM is hour 0, 12 PM stays 12.\<close>
  "hour24 i pm = (if pm then (if i \<noteq> 12 then i + 12 else i) else (if i = 12 then 0 else i))"

definition strptime_IMp :: "string \<Rightarrow> (nat \<times> nat) option" where
  \<comment> \<open>\<open>datetime.strptime(s, "%I:%M%p")\<close>\<close>
  "strptime_IMp s =
     (case concat (map (\<lambda>(i, r1). concat (map (\<lambda>r2. concat (map (\<lambda>(m, r3).
             map (\<lambda>(pm, r4). (i, m, pm, r4)) (re_p r3)) (re_M r2))) (re_colon r1))) (re_I s)) of
        [] \<Rightarrow> None
      | (i, m, pm, rest) # _ \<Rightarrow>
          if rest \<noteq> [] then None
          else Some (hour24 i pm, m))"

definition strptime_HM :: "string \<Rightarrow> (nat \<times> nat) option" where
  \<comment> \<open>\<open>datetime.strptime(s, "%H:%M")\<close>\<close>
  "strptime_HM s =
     (case concat (map (\<lambda>(h, r1). concat (map (\<lambda>r2.
             map (\<lambda>(m, r3). (h, m, r3)) (re_M r2)) (re_colon r1))) (re_H s)) of
        [] \<Rightarrow> None
      | (h, m, rest) # _ \<Rightarrow> if rest \<noteq> [] then None else Some (h, m))"

definition strftime_HM :: "nat \<times> nat \<Rightarrow> string" where
  \<comment> \<open>\<open>parsed.strftime("%H:%M")\<close>\<close>
  "strftime_HM t = pad2 (fst t) @ '':'' @ pad2 (snd t)"

definition hour12 :: "nat \<Rightarrow> nat" where
  "hour12 h = (if h mod 12 = 0 then 12 else h mod 12)"

definition strftime_IMp :: "nat \<times> nat \<Rightarrow> string" where
  \<comment> \<open>\<open>parsed.strftime("%I:%M%p")\<close> in the C locale: \<open>%I\<close> is zero-padded.\<close>
  "strftime_IMp t = pad2 (hour12 (fst t)) @ '':'' @ pad2 (snd t)
                    @ (if fst t < 12 then ''AM'' else ''PM'')"

definition to_24h :: "string \<Rightarrow> string" where
  "to_24h v =
     (if v = [] then []
      else let cleaned = remove_spaces (upper (strip v)) in
        case strptime_IMp cleaned of
          Some parsed \<Rightarrow> strftime_HM parsed
        | None \<Rightarrow> (case strptime_HM cleaned of
             Some parsed \<Rightarrow> strftime_HM parsed
           | None \<Rightarrow> []))"

definition to_display_time :: "string \<Rightarrow> string" where
  "to_display_time v =
     (if v = [] then ''--''
      else case strptime_HM v of
          Some parsed \<Rightarrow> strftime_IMp parsed
        | None \<Rightarrow> v)"

section \<open>Integers from text\<close>

definition c_isspace :: "char \<Rightarrow> bool" where
  \<comment> \<open>The white space \<open>int()\<close> skips around an ASCII literal: tab, LF, VT, FF, CR, space.\<close>
  "c_isspace c = (let n = (of_char c :: nat) in (9 \<le> n \<and> n \<le> 13) \<or> n = 32)"

definition max_str_digits :: nat where
  \<comment> \<open>\<open>sys.get_int_max_str_digits()\<close>, the interpreter's default.\<close>
  "max_str_digits = 4300"

definition digits_value :: "string \<Rightarrow> nat" where
  "digits_value ds = foldl (\<lambda>acc c. 10 * acc + digit_val c) 0 ds"

fun double_underscore :: "string \<Rightarrow> bool" where
  "double_underscore (a # b # r) = ((a = CHR ''_'' \<and> b = CHR ''_'') \<or> double_underscore (b # r))"
| "double_underscore _ = False"

definition py_int :: "string \<Rightarrow> int option" where
  \<comment> \<open>\<open>int(s)\<close> in base 10; \<open>None\<close> stands for \<open>ValueError\<close>. White space around the
      literal, one sign, digits with single underscores between them, and no more digits
      than the interpreter's conversion limit.\<close>
  "py_int s =
     (let t = dropWhile c_isspace s;
          neg = (t \<noteq> [] \<and> hd t = CHR ''-'');
          u = (if t \<noteq> [] \<and> (hd t = CHR ''+'' \<or> hd t = CHR ''-'') then tl t else t);
          body = takeWhile (\<lambda>c. is_digit c \<or> c = CHR ''_'') u;
          rest = dropWhile (\<lambda>c. is_digit c \<or> c = CHR ''_'') u;
          ds = filter is_digit body
      in if body = [] \<or> hd body = CHR ''_'' \<or> last body = CHR ''_'' \<or> double_underscore body
            \<or> \<not> list_all c_isspace rest \<or> length ds > max_str_digits
         then None
         else Some (if neg then - int (digits_value ds) else int (digits_value ds)))"

fun split_colon :: "string \<Rightarrow> string list" where
  \<comment> \<open>\<open>s.split(":")\<close>\<close>
  "split_colon [] = [[]]"
| "split_colon (c # cs) =
     (if c = CHR '':'' then [] # split_colon cs
      else (case split_colon cs of p # ps \<Rightarrow> (c # p) # ps | [] \<Rightarrow> [[c]]))"

fun str_nat :: "nat \<Rightarrow> string" where
  "str_nat n = (if n < 10 then [digit_char n] else str_nat (n div 10) @ [digit_char (n mod 10)])"

declare str_nat.simps [simp del]

definition str_int :: "int \<Rightarrow> string" where
  \<comment> \<open>\<open>str(i)\<close> for an int\<close>
  "str_int i = (if i < 0 then CHR ''-'' # str_nat (nat (- i)) else str_nat (nat i))"

section \<open>Decimal arithmetic\<close>

text \<open>
  Values of \<open>decimal.Decimal\<close>: a finite number is sign, coefficient and exponent
  (\<open>(-1)^sign * coefficient * 10^exponent\<close>), a NaN carries its sign, whether it signals,
  and its payload (0 for none). Operations follow the module's reference implementation
  under the default context: precision 28, \<open>ROUND_HALF_EVEN\<close>, \<open>Emax = 999999\<close>,
  \<open>Emin = -999999\<close>, no clamping, and the traps \<open>InvalidOperation\<close>,
  \<open>DivisionByZero\<close> and \<open>Overflow\<close>, which raise; the other signals only set flags.
\<close>

datatype decimal =
    Finite (dsign: bool) (coeff: nat) (expo: int)
  | Infinity bool
  | NaN bool bool nat

datatype py_error = InvalidOperation | DivisionByZero | Overflow

definition prec :: nat where "prec = 28"
definition Emax :: int where "Emax = 999999"
definition Etiny :: int where "Etiny = - 1000026"
definition Etop :: int where "Etop = 999972"

fun ndigits :: "nat \<Rightarrow> nat" where
  \<comment> \<open>\<open>len(str(n))\<close>\<close>
  "ndigits n = (if n < 10 then 1 else Suc (ndigits (n div 10)))"

declare ndigits.simps [simp del]

definition round_half_even :: "nat \<Rightarrow> nat \<Rightarrow> nat" where
  \<comment> \<open>The coefficient \<open>c\<close> without its last \<open>k\<close> digits, rounded to nearest, ties to even.\<close>
  "round_half_even c k =
     (let q = c div 10 ^ k; r = c mod 10 ^ k
      in if 2 * r > 10 ^ k \<or> (2 * r = 10 ^ k \<and> odd q) then q + 1 else q)"

definition dec_fix :: "bool \<Rightarrow> nat \<Rightarrow> int \<Rightarrow> py_error + decimal" where
  \<comment> \<open>\<open>Decimal._fix\<close> on a finite number: round to the context's precision and exponent range.\<close>
  "dec_fix s c e =
     (if c = 0 then Inr (Finite s 0 (min (max e Etiny) Emax))
      else let exp_min = int (ndigits c) + e - int prec in
        if exp_min > Etop then Inl Overflow
        else let exp_min = max exp_min Etiny in
          if e < exp_min then
            (let r = round_half_even c (nat (exp_min - e));
                 carry = (ndigits r > prec);
                 r' = (if carry then r div 10 else r);
                 exp_min' = (if carry then exp_min + 1 else exp_min)
             in if exp_min' > Etop then Inl Overflow else Inr (Finite s r' exp_min'))
          else Inr (Finite s c e))"

definition Decimal_of_int :: "int \<Rightarrow> decimal" where
  \<comment> \<open>\<open>Decimal(i)\<close> for an int: exact.\<close>
  "Decimal_of_int i = Finite (i < 0) (nat \<bar>i\<bar>) 0"

definition fix_nan :: "bool \<Rightarrow> bool \<Rightarrow> nat \<Rightarrow> decimal" where
  \<comment> \<open>\<open>Decimal._fix_nan\<close>: a payload keeps its last \<open>prec\<close> digits.\<close>
  "fix_nan s sig p = NaN s sig (if ndigits p > prec then p mod 10 ^ prec else p)"

definition check_nans :: "decimal \<Rightarrow> decimal \<Rightarrow> (py_error + decimal) option" where
  \<comment> \<open>\<open>Decimal._check_nans\<close>: a signalling NaN raises, a quiet one is the result.\<close>
  "check_nans a b =
     (case (a, b) of
        (NaN s True p, _) \<Rightarrow> Some (Inl InvalidOperation)
      | (_, NaN s True p) \<Rightarrow> Some (Inl InvalidOperation)
      | (NaN s False p, _) \<Rightarrow> Some (Inr (fix_nan s False p))
      | (_, NaN s False p) \<Rightarrow> Some (Inr (fix_nan s False p))
      | _ \<Rightarrow> None)"

function strip_zeros :: "nat \<Rightarrow> int \<Rightarrow> int \<Rightarrow> nat \<times> int" where
  \<comment> \<open>The loop of an exact division: drop trailing zeros while the exponent is below the
      ideal one. The quotient of an exact division of non-zero numbers is not zero; the
      guard on the coefficient says so.\<close>
  "strip_zeros c e ideal =
     (if c \<noteq> 0 \<and> e < ideal \<and> c mod 10 = 0 then strip_zeros (c div 10) (e + 1) ideal else (c, e))"
  by pat_completeness auto
termination
  by (relation "measure (\<lambda>(c, e, ideal). c)") auto

declare strip_zeros.simps [simp del]

definition dec_truediv :: "decimal \<Rightarrow> decimal \<Rightarrow> py_error + decimal" where
  \<comment> \<open>\<open>Decimal.__truediv__\<close>\<close>
  "dec_truediv a b =
     (case check_nans a b of
        Some r \<Rightarrow> r
      | None \<Rightarrow>
         (case (a, b) of
            (Infinity sa, Infinity sb) \<Rightarrow> Inl InvalidOperation
          | (Infinity sa, Finite sb cb eb) \<Rightarrow> Inr (Infinity (sa \<noteq> sb))
          | (Finite sa ca ea, Infinity sb) \<Rightarrow> Inr (Finite (sa \<noteq> sb) 0 Etiny)
          | (Finite sa ca ea, Finite sb cb eb) \<Rightarrow>
              if cb = 0 then (if ca = 0 then Inl InvalidOperation else Inl DivisionByZero)
              else if ca = 0 then dec_fix (sa \<noteq> sb) 0 (ea - eb)
              else
                let shift = int (ndigits cb) - int (ndigits ca) + int prec + 1;
                    e = ea - eb - shift;
                    n = (if shift \<ge> 0 then ca * 10 ^ nat shift else ca);
                    d = (if shift \<ge> 0 then cb else cb * 10 ^ nat (- shift));
                    q = n div d;
                    r = n mod d;
                    (q', e') = (if r \<noteq> 0 then (if q mod 5 = 0 then q + 1 else q, e)
                                else strip_zeros q e (ea - eb))
                in dec_fix (sa \<noteq> sb) q' e'
          | _ \<Rightarrow> Inl InvalidOperation))"

definition dec_add :: "decimal \<Rightarrow> decimal \<Rightarrow> py_error + decimal" where
  \<comment> \<open>\<open>Decimal.__add__\<close>. For two non-zero numbers the result is the exact sum at the
      smaller exponent, rounded by the context; the implementation first shortens an
      operand that lies wholly below the other's last kept digit, which does not change
      the rounded sum.\<close>
  "dec_add a b =
     (case check_nans a b of
        Some r \<Rightarrow> r
      | None \<Rightarrow>
         (case (a, b) of
            (Infinity sa, Infinity sb) \<Rightarrow> if sa \<noteq> sb then Inl InvalidOperation else Inr a
          | (Infinity sa, _) \<Rightarrow> Inr a
          | (_, Infinity sb) \<Rightarrow> Inr b
          | (Finite sa ca ea, Finite sb cb eb) \<Rightarrow>
              let e = min ea eb in
              if ca = 0 \<and> cb = 0 then dec_fix (sa \<and> sb) 0 e
              else if ca = 0 then
                (let e' = max e (eb - int prec - 1) in dec_fix sb (cb * 10 ^ nat (eb - e')) e')
              else if cb = 0 then
                (let e' = max e (ea - int prec - 1) in dec_fix sa (ca * 10 ^ nat (ea - e')) e')
              else
                let va = (if sa then - int ca else int ca) * 10 ^ nat (ea - e);
                    vb = (if sb then - int cb else int cb) * 10 ^ nat (eb - e);
                    v = va + vb
                in if v = 0 then dec_fix False 0 e else dec_fix (v < 0) (nat \<bar>v\<bar>) e
          | _ \<Rightarrow> Inl InvalidOperation))"

definition dec_bool :: "decimal \<Rightarrow> bool" where
  \<comment> \<open>\<open>bool(d)\<close>: every special value and every non-zero number is true.\<close>
  "dec_bool d = (case d of Finite s c e \<Rightarrow> c \<noteq> 0 | _ \<Rightarrow> True)"

definition dec_val :: "decimal \<Rightarrow> rat" where
  \<comment> \<open>The number a finite decimal denotes (0 for the special values).\<close>
  "dec_val d = (case d of
       Finite s c e \<Rightarrow> (if s then - 1 else 1) * of_nat c * 10 powi e
     | _ \<Rightarrow> 0)"

definition starts_with :: "string \<Rightarrow> string \<Rightarrow> bool" where
  "starts_with p s = (take (length p) s = p)"

definition MAX_EMAX :: int where "MAX_EMAX = 999999999999999999"
definition MIN_ETINY :: int where "MIN_ETINY = - 1999999999999999997"

definition exact_literal :: "bool \<Rightarrow> nat \<Rightarrow> int \<Rightarrow> decimal option" where
  \<comment> \<open>The constructor takes a number only when the module's widest context (64-bit build)
      holds it without rounding or clamping; otherwise it signals \<open>InvalidOperation\<close>.\<close>
  "exact_literal s c e =
     (if (if c = 0 then MIN_ETINY \<le> e \<and> e \<le> MAX_EMAX
          else MIN_ETINY \<le> e \<and> e + int (ndigits c) - 1 \<le> MAX_EMAX)
      then Some (Finite s c e) else None)"

definition parse_exponent :: "string \<Rightarrow> int option" where
  \<comment> \<open>\<^verbatim>\<open>(E[-+]?\d+)?\<close> up to the end of the text (already in lower case); no exponent is 0.\<close>
  "parse_exponent s =
     (case s of
        [] \<Rightarrow> Some 0
      | c # r \<Rightarrow>
          if c \<noteq> CHR ''e'' then None
          else let neg = (r \<noteq> [] \<and> hd r = CHR ''-'');
                   ds = (if r \<noteq> [] \<and> (hd r = CHR ''+'' \<or> hd r = CHR ''-'') then tl r else r)
               in if ds = [] \<or> \<not> list_all is_digit ds then None
                  else Some (if neg then - int (digits_value ds) else int (digits_value ds)))"

definition Decimal_of_str :: "string \<Rightarrow> decimal option" where
  \<comment> \<open>\<open>Decimal(s)\<close> for a string; \<open>None\<close> stands for \<open>InvalidOperation\<close>. White space around
      the text and every underscore are dropped; then, ignoring case, an optional sign and
      either a number (digits with at least one digit, an optional fraction, an optional
      exponent), \<open>Inf\<close>/\<open>Infinity\<close>, or \<open>NaN\<close>/\<open>sNaN\<close> with optional payload digits.\<close>
  "Decimal_of_str s =
     (let t = map lower_char (filter (\<lambda>c. c \<noteq> CHR ''_'') (strip s));
          neg = (t \<noteq> [] \<and> hd t = CHR ''-'');
          u = (if t \<noteq> [] \<and> (hd t = CHR ''+'' \<or> hd t = CHR ''-'') then tl t else t)
      in if u = ''inf'' \<or> u = ''infinity'' then Some (Infinity neg)
         else if starts_with ''nan'' u \<and> list_all is_digit (drop 3 u)
           then Some (NaN neg False (digits_value (drop 3 u)))
         else if starts_with ''snan'' u \<and> list_all is_digit (drop 4 u)
           then Some (NaN neg True (digits_value (drop 4 u)))
         else
           let intpart = takeWhile is_digit u;
               r1 = dropWhile is_digit u;
               dot = (r1 \<noteq> [] \<and> hd r1 = CHR ''.'');
               fracpart = (if dot then takeWhile is_digit (tl r1) else []);
               r2 = (if dot then dropWhile is_digit (tl r1) else r1)
           in if intpart = [] \<and> fracpart = [] then None
              else case parse_exponent r2 of
                  None \<Rightarrow> None
                | Some ex \<Rightarrow> exact_literal neg (digits_value (intpart @ fracpart))
                              (ex - int (length fracpart)))"

definition format_2f :: "decimal \<Rightarrow> string" where
  \<comment> \<open>\<open>f"{d:.2f}"\<close>: a special value is its name (with sign and payload); a number is
      rescaled to exponent -2 with the context's rounding and written in fixed point.\<close>
  "format_2f d =
     (case d of
        NaN s sig p \<Rightarrow> (if s then ''-'' else '''') @ (if sig then ''sNaN'' else ''NaN'')
                         @ (if p = 0 then '''' else str_nat p)
      | Infinity s \<Rightarrow> (if s then ''-'' else '''') @ ''Infinity''
      | Finite s c e \<Rightarrow>
          let c2 = (if c = 0 then 0
                    else if e \<ge> - 2 then c * 10 ^ nat (e + 2)
                    else round_half_even c (nat (- 2 - e)));
              ds = str_nat c2;
              n = length ds
          in (if s then ''-'' else '''')
             @ (if n \<le> 2 then ''0'' else take (n - 2) ds)
             @ ''.''
             @ (if n < 2 then CHR ''0'' # ds else drop (n - 2) ds))"

section \<open>JSON values\<close>

text \<open>
  A value loaded from the JSON document. A float is carried as the text \<open>str\<close> gives
  it (binary floating point itself is not modelled), and so is an array or an object.
\<close>

datatype json = JNull | JBool bool | JInt int | JStr string | JOther string

definition str_json :: "json \<Rightarrow> string" where
  \<comment> \<open>\<open>str(value)\<close>\<close>
  "str_json v = (case v of
       JNull \<Rightarrow> ''None''
     | JBool b \<Rightarrow> (if b then ''True'' else ''False'')
     | JInt i \<Rightarrow> str_int i
     | JStr s \<Rightarrow> s
     | JOther s \<Rightarrow> s)"

definition is_blank :: "json \<Rightarrow> bool" where
  \<comment> \<open>\<open>value in ("", None)\<close>\<close>
  "is_blank v = (v = JStr [] \<or> v = JNull)"

text \<open>The argument of \<open>format_hours\<close>: a \<open>Decimal\<close>, or any other value.\<close>

datatype hours_value = Dec decimal | Val json

section \<open>The program\<close>

definition format_hours :: "hours_value \<Rightarrow> string" where
  "format_hours v =
     (case v of
        Dec d \<Rightarrow> format_2f d
      | Val j \<Rightarrow>
          if is_blank j then ''''
          else (case Decimal_of_str (str_json j) of
                  Some d \<Rightarrow> format_2f d
                | None \<Rightarrow> str_json j))"

definition wrap_editable_value :: "string \<Rightarrow> string \<Rightarrow> string" where
  \<open>wrap_editable_value v extra_attrs =
     (if v = [] then ''<span data-editable="true"'' @ extra_attrs @ ''></span>''
      else ''<span data-editable="true"'' @ extra_attrs @ ''>'' @ v @ ''</span>'')\<close>

definition parse_decimal :: "json option \<Rightarrow> decimal option" where
  \<comment> \<open>The argument is \<open>shift.get("hours")\<close>: a missing key reads as \<open>None\<close>.\<close>
  "parse_decimal v =
     (case v of
        None \<Rightarrow> None
      | Some j \<Rightarrow> if is_blank j then None else Decimal_of_str (str_json j))"

definition to_minutes :: "string \<Rightarrow> int option" where
  "to_minutes v =
     (if v = [] then None
      else case split_colon v of
          [p0, p1] \<Rightarrow>
            (case py_int p0 of
               None \<Rightarrow> None
             | Some hours \<Rightarrow>
                 (case py_int p1 of
                    None \<Rightarrow> None
                  | Some minutes \<Rightarrow> Some (hours * 60 + minutes)))
        | _ \<Rightarrow> None)"

definition hours_from_span :: "string \<Rightarrow> string \<Rightarrow> py_error + decimal" where
  "hours_from_span raw_start raw_end =
     (case (to_minutes raw_start, to_minutes raw_end) of
        (Some start_minutes, Some end_minutes) \<Rightarrow>
          let end_minutes' = (if end_minutes < start_minutes then end_minutes + 24 * 60
                              else end_minutes);
              elapsed = max (end_minutes' - start_minutes) 0
          in dec_truediv (Decimal_of_int elapsed) (Decimal_of_int 60)
      | _ \<Rightarrow> Inr (Finite False 0 0))"

definition escape_char :: "char \<Rightarrow> string" where
  \<open>escape_char c =
     (if c = CHR ''&'' then ''&amp;''
      else if c = CHR ''<'' then ''&lt;''
      else if c = CHR ''>'' then ''&gt;''
      else if c = CHR ''"'' then ''&quot;''
      else if c = CHR 0x27 then ''&#x27;''
      else [c])\<close>

definition escape :: "string \<Rightarrow> string" where
  \<comment> \<open>\<open>html.escape(s)\<close>, quotes included\<close>
  "escape s = concat (map escape_char s)"

record shift =
  shift_start :: "json option"
  shift_end :: "json option"
  shift_hours :: "json option"

record entry =
  day :: "string option"
  date :: "string option"
  shifts :: "shift list option"

definition get_str :: "json option \<Rightarrow> string" where
  \<comment> \<open>\<open>str(shift.get(key, ""))\<close>\<close>
  "get_str v = (case v of None \<Rightarrow> '''' | Some j \<Rightarrow> str_json j)"

definition start_entry :: "nat \<Rightarrow> nat \<Rightarrow> string \<Rightarrow> string \<Rightarrow> string" where
  \<open>start_entry index shift_index raw_start display_start =
     ''<div class="shift-entry" ''
     @ ''data-day-index="'' @ str_nat index @ ''" data-shift-index="'' @ str_nat shift_index @ ''">''
     @ ''<span data-shift-display="start" data-day-index="'' @ str_nat index @ ''" ''
     @ ''data-shift-index="'' @ str_nat shift_index @ ''" data-raw-value="'' @ raw_start @ ''">''
     @ display_start @ ''</span>''
     @ ''<input class="time-input" type="time" data-shift-input="start" ''
     @ ''data-day-index="'' @ str_nat index @ ''" data-shift-index="'' @ str_nat shift_index @ ''" ''
     @ ''value="'' @ raw_start @ ''">''
     @ ''<button type="button" class="shift-remove" ''
     @ ''data-day-index="'' @ str_nat index @ ''" data-shift-index="'' @ str_nat shift_index
     @ ''">&times;</button>''
     @ ''</div>''\<close>

definition end_entry :: "nat \<Rightarrow> nat \<Rightarrow> string \<Rightarrow> string \<Rightarrow> string" where
  \<open>end_entry index shift_index raw_end display_end =
     ''<div class="shift-entry" ''
     @ ''data-day-index="'' @ str_nat index @ ''" data-shift-index="'' @ str_nat shift_index @ ''">''
     @ ''<span data-shift-display="end" data-day-index="'' @ str_nat index @ ''" ''
     @ ''data-shift-index="'' @ str_nat shift_index @ ''" data-raw-value="'' @ raw_end @ ''">''
     @ display_end @ ''</span>''
     @ ''<input class="time-input" type="time" data-shift-input="end" ''
     @ ''data-day-index="'' @ str_nat index @ ''" data-shift-index="'' @ str_nat shift_index @ ''" ''
     @ ''value="'' @ raw_end @ ''">''
     @ ''</div>''\<close>

definition shift_duration :: "shift \<Rightarrow> py_error + decimal" where
  \<comment> \<open>The \<open>hours_value\<close> of one shift: lines 141, 142 and 146 to 148 of the loop body.\<close>
  "shift_duration sh =
     (let raw_start = to_24h (get_str (shift_start sh));
          raw_end = to_24h (get_str (shift_end sh))
      in case parse_decimal (shift_hours sh) of
           None \<Rightarrow> hours_from_span raw_start raw_end
         | Some hours_value \<Rightarrow> Inr hours_value)"

fun shift_loop ::
  "nat \<Rightarrow> nat \<Rightarrow> shift list \<Rightarrow> string list \<times> string list \<times> decimal
     \<Rightarrow> py_error + (string list \<times> string list \<times> decimal)" where
  \<comment> \<open>The loop over the shifts of one day, from \<open>shift_index\<close> on, with the loop's state:
      \<open>start_entries\<close>, \<open>end_entries\<close> and \<open>day_total\<close>.\<close>
  "shift_loop index shift_index [] acc = Inr acc"
| "shift_loop index shift_index (sh # rest) (start_entries, end_entries, day_total) =
     (let raw_start = to_24h (get_str (shift_start sh));
          raw_end = to_24h (get_str (shift_end sh));
          display_start = escape (to_display_time raw_start);
          display_end = escape (to_display_time raw_end)
      in case shift_duration sh of
           Inl err \<Rightarrow> Inl err
         | Inr hours_value \<Rightarrow>
             (case dec_add day_total hours_value of
                Inl err \<Rightarrow> Inl err
              | Inr day_total' \<Rightarrow>
                  shift_loop index (Suc shift_index) rest
                    (start_entries @ [start_entry index shift_index raw_start display_start],
                     end_entries @ [end_entry index shift_index raw_end display_end],
                     day_total')))"

definition empty_shift :: shift where
  \<comment> \<open>The dict \<open>{}\<close>\<close>
  "empty_shift = \<lparr>shift_start = None, shift_end = None, shift_hours = None\<rparr>"

definition day_shifts :: "entry \<Rightarrow> shift list" where
  \<comment> \<open>\<open>entry.get("shifts") or []\<close>, then \<open>[{}]\<close> when that is empty\<close>
  "day_shifts e =
     (let shs = (case shifts e of None \<Rightarrow> [] | Some l \<Rightarrow> l)
      in if shs = [] then [empty_shift] else shs)"

definition hours_display :: "decimal \<Rightarrow> string" where
  "hours_display day_total = (if dec_bool day_total then format_hours (Dec day_total) else ''0.00'')"

definition row :: "nat \<Rightarrow> entry \<Rightarrow> string list \<Rightarrow> string list \<Rightarrow> decimal \<Rightarrow> string" where
  \<open>row index e start_entries end_entries day_total =
     ''<tr>''
     @ ''<td>'' @ wrap_editable_value (escape (case day e of None \<Rightarrow> '''' | Some s \<Rightarrow> s)) '''' @ ''</td>''
     @ ''<td>'' @ wrap_editable_value (escape (case date e of None \<Rightarrow> '''' | Some s \<Rightarrow> s))
                   ('' data-date-cell="true" data-day-offset="'' @ str_nat index @ ''"'') @ ''</td>''
     @ ''<td>''
     @ ''<div class="shift-list" data-day-index="'' @ str_nat index @ ''" data-shift-side="start">''
     @ concat start_entries
     @ ''</div>''
     @ ''<button type="button" class="shift-add" data-day-index="'' @ str_nat index @ ''">+ Add Shift</button>''
     @ ''</td>''
     @ ''<td>''
     @ ''<div class="shift-list" data-day-index="'' @ str_nat index @ ''" data-shift-side="end">''
     @ concat end_entries
     @ ''</div>''
     @ ''</td>''
     @ ''<td class="hours"><span data-day-hours="true" data-hours-cell="true" ''
     @ ''data-day-index="'' @ str_nat index @ ''">'' @ hours_display day_total @ ''</span></td>''
     @ ''</tr>''\<close>

fun entry_loop ::
  "nat \<Rightarrow> entry list \<Rightarrow> string list \<times> decimal \<Rightarrow> py_error + (string list \<times> decimal)" where
  \<comment> \<open>The loop over the day entries, from \<open>index\<close> on, with the loop's state: \<open>rows\<close> and \<open>total\<close> (here \<open>week_total\<close>).\<close>
  "entry_loop index [] acc = Inr acc"
| "entry_loop index (e # rest) (rows, week_total) =
     (case shift_loop index 0 (day_shifts e) ([], [], Finite False 0 0) of
        Inl err \<Rightarrow> Inl err
      | Inr (start_entries, end_entries, day_total) \<Rightarrow>
          (case dec_add week_total day_total of
             Inl err \<Rightarrow> Inl err
           | Inr week_total' \<Rightarrow>
               entry_loop (Suc index) rest
                 (rows @ [row index e start_entries end_entries day_total], week_total')))"

fun join :: "string \<Rightarrow> string list \<Rightarrow> string" where
  \<comment> \<open>\<open>sep.join(xs)\<close>\<close>
  "join sep [] = []"
| "join sep [x] = x"
| "join sep (x # y # r) = x @ sep @ join sep (y # r)"

definition build_rows :: "entry list \<Rightarrow> py_error + (string \<times> string)" where
  "build_rows entries =
     (case entry_loop 0 entries ([], Finite False 0 0) of
        Inl err \<Rightarrow> Inl err
      | Inr (rows, week_total) \<Rightarrow>
          Inr (join (CHR 0x0A # ''          '') rows, format_hours (Dec week_total)))"

section \<open>Verification\<close>

subsection \<open>Characters and parsed times\<close>

lemma of_char_digit_char: "d < 10 \<Longrightarrow> (of_char (digit_char d) :: nat) = 48 + d"
  by (simp add: digit_char_def)

lemma digit_char_props:
  assumes "d < 10"
  shows "is_digit (digit_char d)" "digit_val (digit_char d) = d"
    "char_in (digit_char d) lo hi \<longleftrightarrow> lo \<le> d \<and> d \<le> hi"
    "\<not> py_isspace (digit_char d)" "upper_char (digit_char d) = digit_char d"
  using assms
  by (auto simp: is_digit_def digit_val_def char_in_def py_isspace_def upper_char_def
      of_char_digit_char Let_def)

lemma digit_char_neq:
  assumes "d < 10" "(of_char c :: nat) < 48 \<or> 57 < (of_char c :: nat)"
  shows "digit_char d \<noteq> c"
proof
  assume "digit_char d = c"
  then have "(of_char (digit_char d) :: nat) = of_char c" by simp
  then show False using assms by (simp add: of_char_digit_char)
qed

lemma digit_val_lits: "digit_val CHR ''0'' = 0" "digit_val CHR ''1'' = 1" "digit_val CHR ''2'' = 2"
  by (simp_all add: digit_val_def)

lemma two_digits_range:
  "(n, r) \<in> set (two_digits p q s) \<Longrightarrow> \<exists>a b. s = a # b # r \<and> p a \<and> q b \<and> n = 10 * digit_val a + digit_val b"
  by (auto simp: two_digits_def split: list.splits if_splits)

lemma one_digit_range:
  "(n, r) \<in> set (one_digit p s) \<Longrightarrow> \<exists>a. s = a # r \<and> p a \<and> n = digit_val a"
  by (auto simp: one_digit_def split: list.splits if_splits)

lemma char_in_val: "char_in c lo hi \<Longrightarrow> lo \<le> digit_val c \<and> digit_val c \<le> hi"
  by (auto simp: char_in_def digit_val_def Let_def)

lemma is_digit_val: "is_digit c \<Longrightarrow> digit_val c \<le> 9"
  by (auto simp: is_digit_def digit_val_def Let_def)

lemma re_H_range:
  assumes "(h, r) \<in> set (re_H s)"
  shows "h < 24"
proof -
  from assms consider
      (a) "(h, r) \<in> set (two_digits (\<lambda>c. c = CHR ''2'') (\<lambda>c. char_in c 0 3) s)"
    | (b) "(h, r) \<in> set (two_digits (\<lambda>c. char_in c 0 1) is_digit s)"
    | (c) "(h, r) \<in> set (one_digit is_digit s)"
    unfolding re_H_def by auto
  then show ?thesis
  proof cases
    case a
    from two_digits_range[OF a] obtain x y where
      "x = CHR ''2''" "char_in y 0 3" "h = 10 * digit_val x + digit_val y" by auto
    then show ?thesis using char_in_val[of y 0 3] by (simp add: digit_val_lits)
  next
    case b
    from two_digits_range[OF b] obtain x y where
      "char_in x 0 1" "is_digit y" "h = 10 * digit_val x + digit_val y" by auto
    then show ?thesis using char_in_val[of x 0 1] is_digit_val[of y] by simp
  next
    case c
    from one_digit_range[OF c] obtain x where "is_digit x" "h = digit_val x" by auto
    then show ?thesis using is_digit_val[of x] by simp
  qed
qed

lemma re_M_range:
  assumes "(m, r) \<in> set (re_M s)"
  shows "m < 60"
proof -
  from assms consider
      (a) "(m, r) \<in> set (two_digits (\<lambda>c. char_in c 0 5) is_digit s)"
    | (b) "(m, r) \<in> set (one_digit is_digit s)"
    unfolding re_M_def by auto
  then show ?thesis
  proof cases
    case a
    from two_digits_range[OF a] obtain x y where
      "char_in x 0 5" "is_digit y" "m = 10 * digit_val x + digit_val y" by auto
    then show ?thesis using char_in_val[of x 0 5] is_digit_val[of y] by simp
  next
    case b
    from one_digit_range[OF b] obtain x where "is_digit x" "m = digit_val x" by auto
    then show ?thesis using is_digit_val[of x] by simp
  qed
qed

lemma re_I_range:
  assumes "(h, r) \<in> set (re_I s)"
  shows "1 \<le> h \<and> h \<le> 12"
proof -
  from assms consider
      (a) "(h, r) \<in> set (two_digits (\<lambda>c. c = CHR ''1'') (\<lambda>c. char_in c 0 2) s)"
    | (b) "(h, r) \<in> set (two_digits (\<lambda>c. c = CHR ''0'') (\<lambda>c. char_in c 1 9) s)"
    | (c) "(h, r) \<in> set (one_digit (\<lambda>c. char_in c 1 9) s)"
    unfolding re_I_def by auto
  then show ?thesis
  proof cases
    case a
    from two_digits_range[OF a] obtain x y where
      "x = CHR ''1''" "char_in y 0 2" "h = 10 * digit_val x + digit_val y" by auto
    then show ?thesis using char_in_val[of y 0 2] by (simp add: digit_val_lits)
  next
    case b
    from two_digits_range[OF b] obtain x y where
      "x = CHR ''0''" "char_in y 1 9" "h = 10 * digit_val x + digit_val y" by auto
    then show ?thesis using char_in_val[of y 1 9] by (simp add: digit_val_lits)
  next
    case c
    from one_digit_range[OF c] obtain x where "char_in x 1 9" "h = digit_val x" by auto
    then show ?thesis using char_in_val[of x 1 9] by simp
  qed
qed

lemma strptime_HM_range:
  assumes "strptime_HM s = Some (h, m)"
  shows "h < 24 \<and> m < 60"
proof -
  let ?L = "concat (map (\<lambda>(h, r1). concat (map (\<lambda>r2.
             map (\<lambda>(m, r3). (h, m, r3)) (re_M r2)) (re_colon r1))) (re_H s))"
  from assms obtain rest tl where L: "?L = (h, m, rest) # tl"
    unfolding strptime_HM_def by (auto split: list.splits if_splits)
  then have "(h, m, rest) \<in> set ?L" by simp
  then obtain r1 r2 where "(h, r1) \<in> set (re_H s)" "(m, rest) \<in> set (re_M r2)"
    by auto
  then show ?thesis using re_H_range re_M_range by blast
qed

lemma strptime_IMp_range:
  assumes "strptime_IMp s = Some (h, m)"
  shows "h < 24 \<and> m < 60"
proof -
  let ?L = "concat (map (\<lambda>(i, r1). concat (map (\<lambda>r2. concat (map (\<lambda>(m, r3).
             map (\<lambda>(pm, r4). (i, m, pm, r4)) (re_p r3)) (re_M r2))) (re_colon r1))) (re_I s))"
  from assms obtain i pm rest tl where L: "?L = (i, m, pm, rest) # tl"
    and h: "h = hour24 i pm"
    unfolding strptime_IMp_def by (auto split: list.splits if_splits)
  then have "(i, m, pm, rest) \<in> set ?L" by simp
  then obtain r1 r2 r3 where "(i, r1) \<in> set (re_I s)" "(m, r3) \<in> set (re_M r2)"
    by auto
  then have "1 \<le> i \<and> i \<le> 12" "m < 60" using re_I_range re_M_range by blast+
  then show ?thesis using h by (auto simp: hour24_def)
qed

lemma digit_char_lits: "digit_char 0 = CHR ''0''" "digit_char 1 = CHR ''1''" "digit_char 2 = CHR ''2''"
  by code_simp+

lemma digit_char_eq_lit:
  assumes "d < 10"
  shows "digit_char d = CHR ''0'' \<longleftrightarrow> d = 0" "digit_char d = CHR ''1'' \<longleftrightarrow> d = 1"
    "digit_char d = CHR ''2'' \<longleftrightarrow> d = 2"
  using digit_char_props(2)[OF assms] digit_char_lits digit_val_lits by metis+

lemma two_digits_Cons [simp]:
  "two_digits p q (x # y # r) = (if p x \<and> q y then [(10 * digit_val x + digit_val y, r)] else [])"
  "two_digits p q [x] = []" "two_digits p q [] = []"
  by (simp_all add: two_digits_def)

lemma one_digit_Cons [simp]:
  "one_digit p (x # r) = (if p x then [(digit_val x, r)] else [])" "one_digit p [] = []"
  by (simp_all add: one_digit_def)

lemma re_colon_Cons [simp]:
  "re_colon (c # r) = (if c = CHR '':'' then [r] else [])" "re_colon [] = []"
  by (simp_all add: re_colon_def)

lemma digit_char_not_colon: "d < 10 \<Longrightarrow> digit_char d \<noteq> CHR '':''"
  by (rule digit_char_neq) simp_all

lemma strptime_HM_pad2:
  assumes "h < 24" "m < 60"
  shows "strptime_HM (pad2 h @ '':'' @ pad2 m) = Some (h, m)"
proof -
  define a b c d where "a = h div 10" and "b = h mod 10" and "c = m div 10" and "d = m mod 10"
  have bnd: "a < 10" "b < 10" "c < 10" "d < 10" "c \<le> 5" "a \<le> 2" "a = 2 \<Longrightarrow> b \<le> 3"
    and hm: "10 * a + b = h" "10 * c + d = m"
    using assms unfolding a_def b_def c_def d_def by presburger+
  have M: "re_M [digit_char c, digit_char d] = [(m, []), (c, [digit_char d])]"
    using bnd hm by (simp add: re_M_def digit_char_props)
  have H: "re_H (digit_char a # digit_char b # CHR '':'' # r) =
      [(h, CHR '':'' # r), (a, digit_char b # CHR '':'' # r)]" for r
    using bnd hm by (auto simp: re_H_def digit_char_props digit_char_eq_lit)
  show ?thesis
    unfolding strptime_HM_def pad2_def a_def[symmetric] b_def[symmetric] c_def[symmetric] d_def[symmetric]
    using bnd by (simp add: H M digit_char_not_colon)
qed

lemma char_lits:
  "lower_char CHR ''A'' = CHR ''a''" "lower_char CHR ''P'' = CHR ''p''"
  "lower_char CHR ''M'' = CHR ''m''"
  by code_simp+

lemma lower_digit_char: "d < 10 \<Longrightarrow> lower_char (digit_char d) = digit_char d"
  by (simp add: lower_char_def of_char_digit_char)

lemma char_in_colon: "hi \<le> 9 \<Longrightarrow> \<not> char_in CHR '':'' lo hi"
  by (simp add: char_in_def)

lemma re_p_Cons [simp]:
  "re_p (x # y # r) =
     (if lower_char x = CHR ''a'' \<and> lower_char y = CHR ''m'' then [(False, r)] else [])
   @ (if lower_char x = CHR ''p'' \<and> lower_char y = CHR ''m'' then [(True, r)] else [])"
  "re_p [x] = []" "re_p [] = []"
  by (simp_all add: re_p_def)

lemma re_M_pad2:
  assumes "m < 60"
  shows "re_M (pad2 m @ r) = [(m, r), (m div 10, digit_char (m mod 10) # r)]"
proof -
  have "m div 10 \<le> 5" "m div 10 < 10" "m mod 10 < 10" using assms by presburger+
  then show ?thesis by (simp add: re_M_def pad2_def digit_char_props)
qed

lemma after_M:
  assumes "m < 60"
  shows "concat (map (\<lambda>(m, r3). map (\<lambda>(pm, r4). (i, m, pm, r4)) (re_p r3))
           (re_M (pad2 m @ (if pm then ''PM'' else ''AM'')))) = [(i, m, pm, [])]"
proof -
  have d: "m mod 10 < 10" by simp
  have ne: "digit_char (m mod 10) \<noteq> CHR ''a''" "digit_char (m mod 10) \<noteq> CHR ''p''"
    by (rule digit_char_neq[OF d], simp)+
  show ?thesis
    by (simp add: re_M_pad2[OF assms] char_lits lower_digit_char[OF d] ne)
qed

lemma strptime_IMp_canon:
  assumes "1 \<le> h" "h \<le> 12" "m < 60"
    and "hs = pad2 h \<or> (h < 10 \<and> hs = [digit_char h])"
  shows "strptime_IMp (hs @ '':'' @ pad2 m @ (if pm then ''PM'' else ''AM'')) = Some (hour24 h pm, m)"
proof -
  let ?r = "pad2 m @ (if pm then ''PM'' else ''AM'')"
  define a b where "a = h div 10" and "b = h mod 10"
  have bnd: "a < 10" "b < 10" "a \<le> 1" "a = 1 \<Longrightarrow> b \<le> 2" "a = 0 \<Longrightarrow> 1 \<le> b" "10 * a + b = h"
    using assms(1,2) unfolding a_def b_def by presburger+
  from assms(4) show ?thesis
  proof
    assume hs: "hs = pad2 h"
    have I: "re_I (digit_char a # digit_char b # CHR '':'' # ?r) =
        (h, CHR '':'' # ?r) # (if a = 1 then [(1, digit_char b # CHR '':'' # ?r)] else [])"
      using bnd by (auto simp: re_I_def digit_char_props digit_char_eq_lit)
    show ?thesis
      unfolding strptime_IMp_def hs pad2_def[of h] a_def[symmetric] b_def[symmetric]
      using bnd(2) by (simp add: I after_M[OF assms(3)] digit_char_not_colon hour24_def)
  next
    assume "h < 10 \<and> hs = [digit_char h]"
    then have h10: "h < 10" and hs: "hs = [digit_char h]" by simp_all
    have I: "re_I (digit_char h # CHR '':'' # ?r) = [(h, CHR '':'' # ?r)]"
      using h10 assms(1) by (simp add: re_I_def digit_char_props char_in_colon)
    show ?thesis
      unfolding strptime_IMp_def hs
      by (simp add: I after_M[OF assms(3)] hour24_def)
  qed
qed

lemma hour24_props:
  assumes "1 \<le> h" "h \<le> 12"
  shows "hour24 h pm < 24" "hour12 (hour24 h pm) = h" "hour24 h pm < 12 \<longleftrightarrow> \<not> pm"
  using assms by (auto simp: hour24_def hour12_def)

lemma strptime_HM_Nil: "strptime_HM [] = None"
  by (simp add: strptime_HM_def re_H_def)

lemma to_display_time_parsed:
  "strptime_HM v = Some (h, m) \<Longrightarrow>
     to_display_time v = pad2 (hour12 h) @ '':'' @ pad2 m @ (if h < 12 then ''AM'' else ''PM'')"
  using strptime_HM_Nil by (auto simp: to_display_time_def strftime_IMp_def)

lemma to_display_time_canon:
  assumes "h < 24" "m < 60"
  shows "to_display_time (pad2 h @ '':'' @ pad2 m) =
           pad2 (hour12 h) @ '':'' @ pad2 m @ (if h < 12 then ''AM'' else ''PM'')"
  by (rule to_display_time_parsed[OF strptime_HM_pad2[OF assms]])

lemma to_24h_shape:
  "to_24h v = [] \<or> (\<exists>h m. h < 24 \<and> m < 60 \<and> to_24h v = pad2 h @ '':'' @ pad2 m)"
proof (cases "v = []")
  case True
  then show ?thesis by (simp add: to_24h_def)
next
  case False
  let ?c = "remove_spaces (upper (strip v))"
  show ?thesis
  proof (cases "strptime_IMp ?c")
    case (Some t)
    obtain h m where t: "t = (h, m)" by (cases t)
    with Some strptime_IMp_range have "h < 24 \<and> m < 60" by blast
    moreover have "to_24h v = pad2 h @ '':'' @ pad2 m"
      using False Some t by (simp add: to_24h_def strftime_HM_def)
    ultimately show ?thesis by blast
  next
    case None
    show ?thesis
    proof (cases "strptime_HM ?c")
      case (Some t)
      obtain h m where t: "t = (h, m)" by (cases t)
      with Some strptime_HM_range have "h < 24 \<and> m < 60" by blast
      moreover have "to_24h v = pad2 h @ '':'' @ pad2 m"
        using False None Some t by (simp add: to_24h_def strftime_HM_def)
      ultimately show ?thesis by blast
    next
      case N2: None
      then show ?thesis using False None by (simp add: to_24h_def)
    qed
  qed
qed

lemma to_24h_cleaned_12h:
  assumes "1 \<le> h" "h \<le> 12" "m < 60"
    and "hs = pad2 h \<or> (h < 10 \<and> hs = [digit_char h])"
    and "remove_spaces (upper (strip x)) = hs @ '':'' @ pad2 m @ (if pm then ''PM'' else ''AM'')"
  shows "to_24h x = pad2 (hour24 h pm) @ '':'' @ pad2 m"
proof -
  have "x \<noteq> []" using assms(5) by (auto simp: strip_def upper_def remove_spaces_def)
  then show ?thesis
    using strptime_IMp_canon[OF assms(1-4), of pm] assms(5)
    by (simp add: to_24h_def strftime_HM_def)
qed

subsection \<open>Digit counts and exact quotients\<close>

lemma ndigits_pos: "0 < ndigits n"
  by (subst ndigits.simps) simp

lemma ndigits_upper: "n < 10 ^ ndigits n"
proof (induction n rule: ndigits.induct)
  case (1 n)
  show ?case
  proof (cases "n < 10")
    case True
    then show ?thesis by (subst ndigits.simps) simp
  next
    case False
    with 1 have "n div 10 < 10 ^ ndigits (n div 10)" by simp
    then have "n < 10 * 10 ^ ndigits (n div 10)" by simp
    with False show ?thesis by (subst ndigits.simps) simp
  qed
qed

lemma ndigits_lower: "n \<noteq> 0 \<Longrightarrow> 10 ^ (ndigits n - 1) \<le> n"
proof (induction n rule: ndigits.induct)
  case (1 n)
  show ?case
  proof (cases "n < 10")
    case True
    with 1(2) show ?thesis by (subst ndigits.simps) simp
  next
    case False
    then have nz: "n div 10 \<noteq> 0" by simp
    with 1(1) False have "10 ^ (ndigits (n div 10) - 1) \<le> n div 10" by simp
    then have "10 * 10 ^ (ndigits (n div 10) - 1) \<le> n" by simp
    moreover have "ndigits n - 1 = Suc (ndigits (n div 10) - 1)"
      using False ndigits_pos[of "n div 10"] by (subst ndigits.simps) simp
    ultimately show ?thesis by simp
  qed
qed

lemma ndigits_le_iff: "0 < k \<Longrightarrow> ndigits n \<le> k \<longleftrightarrow> n < 10 ^ k"
proof
  assume "0 < k" "ndigits n \<le> k"
  then have "(10::nat) ^ ndigits n \<le> 10 ^ k" by (simp add: power_increasing)
  with ndigits_upper[of n] show "n < 10 ^ k" by (rule less_le_trans)
next
  assume k: "0 < k" and lt: "n < 10 ^ k"
  show "ndigits n \<le> k"
  proof (cases "n = 0")
    case True
    then show ?thesis using k by (subst ndigits.simps) simp
  next
    case False
    from ndigits_lower[OF False] lt have "(10::nat) ^ (ndigits n - 1) < 10 ^ k"
      by (rule le_less_trans)
    then have "ndigits n - 1 < k" by (rule power_less_imp_less_exp[rotated]) simp
    then show ?thesis by simp
  qed
qed

lemma ndigits_mono: "a \<le> b \<Longrightarrow> ndigits a \<le> ndigits b"
  using ndigits_le_iff[OF ndigits_pos, of a b] ndigits_upper[of b] by simp

lemma ndigits_ge_iff: "0 < k \<Longrightarrow> k < ndigits n \<longleftrightarrow> 10 ^ k \<le> n"
  using ndigits_le_iff[of k n] by auto

lemma strip_zeros_step:
  "c \<noteq> 0 \<and> e < i \<and> c mod 10 = 0 \<Longrightarrow> strip_zeros c e i = strip_zeros (c div 10) (e + 1) i"
  by (subst strip_zeros.simps) (rule if_P)

lemma strip_zeros_stop:
  "\<not> (c \<noteq> 0 \<and> e < i \<and> c mod 10 = 0) \<Longrightarrow> strip_zeros c e i = (c, e)"
  by (subst strip_zeros.simps) (rule if_not_P)

lemma strip_zeros_props:
  "strip_zeros c e i = (c', e') \<Longrightarrow>
     (of_nat c' :: rat) * 10 powi e' = of_nat c * 10 powi e \<and> c' \<le> c \<and> e \<le> e'
     \<and> (e \<le> i \<longrightarrow> e' \<le> i) \<and> (c \<noteq> 0 \<longrightarrow> c' \<noteq> 0)
     \<and> \<not> (c' \<noteq> 0 \<and> e' < i \<and> c' mod 10 = 0)"
proof (induction c e i arbitrary: c' e' rule: strip_zeros.induct)
  case (1 c e ideal)
  show ?case
  proof (cases "c \<noteq> 0 \<and> e < ideal \<and> c mod 10 = 0")
    case True
    from 1(2) have rec: "strip_zeros (c div 10) (e + 1) ideal = (c', e')"
      by (simp only: strip_zeros_step[OF True])
    note ih = 1(1)[OF True rec]
    from True have c: "c = 10 * (c div 10)" by presburger
    have "(of_nat c :: rat) * 10 powi e = of_nat (c div 10) * (10 * 10 powi e)"
      by (subst c) simp
    also have "\<dots> = of_nat (c div 10) * 10 powi (e + 1)"
      by (simp add: power_int_add)
    finally have v: "(of_nat (c div 10) :: rat) * 10 powi (e + 1) = of_nat c * 10 powi e" by simp
    have le: "c div 10 \<le> c" by simp
    have nz: "c div 10 \<noteq> 0" using True by presburger
    from ih v have "(of_nat c' :: rat) * 10 powi e' = of_nat c * 10 powi e" by simp
    moreover from ih le have "c' \<le> c" by linarith
    moreover from ih have "e \<le> e'" by linarith
    moreover from ih True have "e \<le> ideal \<longrightarrow> e' \<le> ideal" by simp
    moreover from ih nz have "c \<noteq> 0 \<longrightarrow> c' \<noteq> 0" by simp
    moreover from ih have "\<not> (c' \<noteq> 0 \<and> e' < ideal \<and> c' mod 10 = 0)" by simp
    ultimately show ?thesis by blast
  next
    case False
    from 1(2) have "c' = c" "e' = e" by (simp_all only: strip_zeros_stop[OF False] prod.inject)
    with False show ?thesis by simp
  qed
qed

lemma round_sticky:
  fixes X :: rat
  assumes k: "0 < k" and c5: "c mod 5 \<noteq> 0" and X: "\<bar>X - of_nat c\<bar> < 1"
  shows "\<bar>of_nat (round_half_even c k) * 10 ^ k - X\<bar> * 2 \<le> 10 ^ k"
proof -
  define Q where "Q = c div 10 ^ k"
  define r where "r = c mod 10 ^ k"
  define P :: nat where "P = 10 ^ k"
  have c_eq: "c = Q * P + r" unfolding Q_def r_def P_def by (rule div_mult_mod_eq[symmetric])
  have "(10::nat) dvd 10 ^ k" using k by (simp add: dvd_power)
  moreover have "(5::nat) dvd 10" by simp
  ultimately have d5: "5 dvd P" unfolding P_def by (rule dvd_trans[rotated])
  have evP: "even P" using k unfolding P_def by simp
  have "r mod 5 = c mod 5" unfolding r_def P_def[symmetric] using d5 by (rule mod_mod_cancel)
  with c5 have r5: "r mod 5 \<noteq> 0" by simp
  have rP: "r < P" unfolding r_def P_def by simp
  have ne: "2 * r \<noteq> P"
  proof
    assume e: "2 * r = P"
    with d5 have "5 dvd 2 * r" by simp
    then have "5 dvd r" by (simp add: coprime_dvd_mult_right_iff)
    with r5 show False by (simp add: dvd_eq_mod_eq_0)
  qed
  have cX: "of_nat c = (of_nat Q :: rat) * of_nat P + of_nat r" by (simp add: c_eq)
  have Pk: "(of_nat P :: rat) = 10 ^ k" by (simp add: P_def)
  from X have X1: "X - of_nat c < 1" and X2: "of_nat c - X < 1" by linarith+
  show ?thesis
  proof (cases "2 * r > P")
    case True
    then have R: "round_half_even c k = Q + 1"
      by (simp add: round_half_even_def Let_def Q_def r_def P_def)
    from True evP have "P + 2 \<le> 2 * r" by presburger
    then have "(of_nat (P + 2) :: rat) \<le> of_nat (2 * r)" by (rule of_nat_mono)
    then have a: "(of_nat P :: rat) + 2 \<le> 2 * of_nat r" by simp
    from rP have "Suc r \<le> P" by simp
    then have "(of_nat (Suc r) :: rat) \<le> of_nat P" by (rule of_nat_mono)
    then have b: "(of_nat r :: rat) + 1 \<le> of_nat P" by simp
    have v: "of_nat (round_half_even c k) * of_nat P - X = (of_nat P - of_nat r) + (of_nat c - X)"
      unfolding R cX by (simp add: algebra_simps)
    have "0 \<le> (of_nat P - of_nat r) + (of_nat c - X)" using b X1 by linarith
    moreover have "((of_nat P - of_nat r) + (of_nat c - X)) * 2 \<le> of_nat P"
      using a X2 by (simp add: algebra_simps)
    ultimately show ?thesis unfolding Pk[symmetric] v by (simp only: abs_of_nonneg)
  next
    case False
    with ne have lt: "2 * r < P" by simp
    then have R: "round_half_even c k = Q"
      by (simp add: round_half_even_def Let_def Q_def r_def P_def)
    from lt evP have "2 * r + 2 \<le> P" by presburger
    then have "(of_nat (2 * r + 2) :: rat) \<le> of_nat P" by (rule of_nat_mono)
    then have a: "2 * (of_nat r :: rat) + 2 \<le> of_nat P" by simp
    from r5 have "1 \<le> r" by (cases r) simp_all
    then have "(of_nat 1 :: rat) \<le> of_nat r" by (rule of_nat_mono)
    then have b: "(1 :: rat) \<le> of_nat r" by simp
    have v: "of_nat (round_half_even c k) * of_nat P - X = - ((X - of_nat c) + of_nat r)"
      unfolding R cX by (simp add: algebra_simps)
    have "0 \<le> (X - of_nat c) + of_nat r" using b X2 by linarith
    moreover have "((X - of_nat c) + of_nat r) * 2 \<le> of_nat P"
      using a X1 by (simp add: algebra_simps)
    ultimately show ?thesis unfolding Pk[symmetric] v abs_minus_cancel by (simp only: abs_of_nonneg)
  qed
qed

lemma dec_fix_zero: "dec_fix s 0 e = Inr (Finite s 0 (min (max e Etiny) Emax))"
  by (simp add: dec_fix_def)

lemma dec_fix_result:
  assumes "int (ndigits c) + e \<le> 999999"
  shows "\<exists>c' e'. dec_fix s c e = Inr (Finite s c' e')"
proof -
  define m where "m = max (int (ndigits c) + e - int prec) Etiny"
  have m: "m \<le> 999971" using assms by (simp add: m_def prec_def Etiny_def)
  have n: "\<not> int (ndigits c) + e - int prec > Etop" using assms by (simp add: prec_def Etop_def)
  show ?thesis
    unfolding dec_fix_def Let_def m_def[symmetric]
    using m n by (simp add: Etop_def)
qed

lemma dec_fix_exact:
  assumes "c \<noteq> 0" "c < 10 ^ 28" "Etiny \<le> e" "int (ndigits c) + e \<le> 999999"
  shows "dec_fix s c e = Inr (Finite s c e)"
proof -
  have "ndigits c \<le> 28" using assms(2) by (simp add: ndigits_le_iff)
  then have "int (ndigits c) + e - int prec \<le> e" by (simp add: prec_def)
  with assms(3) have m: "\<not> e < max (int (ndigits c) + e - int prec) Etiny" by linarith
  have n: "\<not> int (ndigits c) + e - int prec > Etop" using assms(4) by (simp add: prec_def Etop_def)
  show ?thesis
    unfolding dec_fix_def Let_def using m n assms(1) by simp
qed

lemma ndigits_mult_pow: "ndigits (a * 10 ^ k) \<le> ndigits a + k"
proof -
  have "a * 10 ^ k < 10 ^ ndigits a * 10 ^ k" using ndigits_upper[of a] by simp
  then have "a * 10 ^ k < 10 ^ (ndigits a + k)" by (simp add: power_add)
  then show ?thesis using ndigits_pos[of a] by (simp add: ndigits_le_iff)
qed

lemma ndigits_Suc: "ndigits (Suc n) \<le> Suc (ndigits n)"
proof -
  have "Suc n \<le> 10 ^ ndigits n" using ndigits_upper[of n] by simp
  also have "\<dots> < 10 ^ Suc (ndigits n)" by simp
  finally show ?thesis by (simp add: ndigits_le_iff)
qed

lemma round_half_even_upper:
  assumes "c < 10 ^ (n + k)"
  shows "round_half_even c k \<le> 10 ^ n"
proof -
  have "c < 10 ^ n * 10 ^ k" using assms by (simp add: power_add)
  then have "c div 10 ^ k < 10 ^ n" by (simp add: less_mult_imp_div_less)
  then show ?thesis by (simp add: round_half_even_def Let_def)
qed

lemma round_half_even_lower:
  assumes "10 ^ (m + k) \<le> c"
  shows "10 ^ m \<le> round_half_even c k"
proof -
  have "(10::nat) ^ m * 10 ^ k \<le> c" using assms by (simp add: power_add)
  then have "10 ^ m \<le> c div 10 ^ k" by (simp add: less_eq_div_iff_mult_less_eq)
  then show ?thesis by (simp add: round_half_even_def Let_def)
qed

lemma dec_fix_sticky:
  fixes X :: rat
  assumes nd: "28 < ndigits c" and c5: "c mod 5 \<noteq> 0" and X: "\<bar>X - of_nat c\<bar> < 1"
    and lo: "Etiny \<le> e + int (ndigits c) - 28" and hi: "int (ndigits c) + e \<le> 999999"
  shows "\<exists>c' e'. dec_fix s c e = Inr (Finite s c' e')
           \<and> \<bar>of_nat c' * 10 powi e' - X * 10 powi e\<bar> * 2 \<le> 10 powi (e + int (ndigits c) - 28)
           \<and> 10 ^ 27 \<le> c' \<and> c' < 10 ^ 28 \<and> e + int (ndigits c) - 28 \<le> e'"
proof -
  define k where "k = ndigits c - 28"
  have k: "0 < k" and n: "ndigits c = 28 + k" using nd by (simp_all add: k_def)
  define r where "r = round_half_even c k"
  have cnz: "c \<noteq> 0" using c5 by auto
  have up: "c < 10 ^ (28 + k)" using ndigits_upper[of c] by (simp add: n)
  have "10 ^ (ndigits c - 1) \<le> c" by (rule ndigits_lower[OF cnz])
  then have low: "10 ^ (27 + k) \<le> c" by (simp add: n)
  have r_le: "r \<le> 10 ^ 28" unfolding r_def using up by (rule round_half_even_upper)
  have r_ge: "10 ^ 27 \<le> r" unfolding r_def using low by (rule round_half_even_lower)
  have em: "max (int (ndigits c) + e - int prec) Etiny = e + int k"
    using lo by (simp add: n prec_def)
  have novf: "\<not> int (ndigits c) + e - int prec > Etop" using hi by (simp add: prec_def Etop_def)
  have kk: "nat (e + int k - e) = k" by simp
  have err: "\<bar>of_nat r * 10 ^ k - X\<bar> * 2 \<le> 10 ^ k"
    unfolding r_def by (rule round_sticky[OF k c5 X])
  have p10: "(0::rat) < 10 powi e" by simp
  have "\<bar>of_nat r * 10 powi (e + int k) - X * 10 powi e\<bar> = \<bar>of_nat r * 10 ^ k - X\<bar> * 10 powi e"
  proof -
    have "of_nat r * 10 powi (e + int k) - X * 10 powi e = (of_nat r * 10 ^ k - X) * 10 powi e"
      by (simp add: power_int_add algebra_simps)
    then show ?thesis using p10 by (simp add: abs_mult)
  qed
  moreover have "(10::rat) powi (e + int k) = 10 ^ k * 10 powi e"
    by (simp add: power_int_add algebra_simps)
  ultimately have verr: "\<bar>of_nat r * 10 powi (e + int k) - X * 10 powi e\<bar> * 2 \<le> 10 powi (e + int k)"
    using err p10 by (simp add: mult_right_mono algebra_simps)
  have ek: "e + int (ndigits c) - 28 = e + int k" by (simp add: n)
  show ?thesis
  proof (cases "ndigits r > prec")
    case True
    then have "28 < ndigits r" by (simp add: prec_def)
    then have "10 ^ 28 \<le> r" using ndigits_ge_iff[of 28 r] by (simp only: zero_less_numeral)
    with r_le have r28: "r = 10 ^ 28" by simp
    have ovf2: "\<not> e + int k + 1 > Etop" using hi by (simp add: n Etop_def)
    have fx: "dec_fix s c e = Inr (Finite s (r div 10) (e + int k + 1))"
      unfolding dec_fix_def Let_def em kk r_def[symmetric]
      using cnz novf True ovf2 k by simp
    have val: "(of_nat (r div 10) :: rat) * 10 powi (e + int k + 1) = of_nat r * 10 powi (e + int k)"
      unfolding r28 by (simp add: power_int_add)
    show ?thesis
      apply (rule exI[of _ "r div 10"], rule exI[of _ "e + int k + 1"])
      unfolding ek using fx verr val by (simp add: r28)
  next
    case False
    then have "ndigits r \<le> 28" by (simp add: prec_def)
    then have "r < 10 ^ 28" using ndigits_le_iff[of 28 r] by (simp only: zero_less_numeral)
    moreover have ovf2: "\<not> e + int k > Etop" using hi by (simp add: n Etop_def)
    moreover have fx: "dec_fix s c e = Inr (Finite s r (e + int k))"
      unfolding dec_fix_def Let_def em kk r_def[symmetric]
      using cnz novf False ovf2 k by simp
    ultimately show ?thesis
      apply -
      apply (rule exI[of _ r], rule exI[of _ "e + int k"])
      unfolding ek using verr r_ge by simp
  qed
qed

section \<open>Claims\<close>

text \<open>
  Claim C3, as written: \<open>to_display_time\<close> returns \<open>"--"\<close> for the empty string, the
  12-hour display form \<^emph>\<open>with no leading zero on the hour\<close> for a text that parses as
  24-hour \<open>HH:MM\<close>, and the input unchanged when it is not empty and does not parse.
  The middle part fails: \<open>%I\<close> pads the hour, so \<open>"09:00"\<close> is displayed as
  \<open>"09:00AM"\<close>, not \<open>"9:00AM"\<close>.
\<close>

theorem to_display_time_leading_zero:
  "strptime_HM ''09:00'' = Some (9, 0) \<and> to_display_time ''09:00'' = ''09:00AM''
   \<and> to_display_time ''09:00'' \<noteq> ''9:00AM''"
proof -
  have p: "strptime_HM (pad2 9 @ '':'' @ pad2 0) = Some (9, 0)"
    by (rule strptime_HM_pad2) simp_all
  have e: "pad2 9 @ '':'' @ pad2 0 = ''09:00''"
    by (simp add: pad2_def digit_char_def) code_simp
  have d: "pad2 (hour12 9) @ '':'' @ pad2 0 @ ''AM'' = ''09:00AM''"
    by (simp add: pad2_def digit_char_def hour12_def) code_simp
  from p e have p': "strptime_HM ''09:00'' = Some (9, 0)" by simp
  from to_display_time_parsed[OF p'] d show ?thesis using p' by simp
qed

text \<open>
  Claim C3, amended: \<open>to_display_time\<close> returns \<open>"--"\<close> for the empty string; for a text
  that parses as \<open>%H:%M\<close> to hour \<open>h\<close> and minute \<open>m\<close> (every canonical \<open>HH:MM\<close> with
  \<open>h < 24\<close> and \<open>m < 60\<close> does, to that hour and minute) it returns the 12-hour form
  \<open>hh:MM\<close> followed by \<open>AM\<close> or \<open>PM\<close>, the hour 01 to 12 zero-padded to two digits; and a
  text that is not empty and does not parse is returned unchanged.
\<close>

theorem to_display_time_cases:
  "to_display_time [] = ''--''
   \<and> (\<forall>v h m. strptime_HM v = Some (h, m) \<longrightarrow>
         to_display_time v = pad2 (hour12 h) @ '':'' @ pad2 m @ (if h < 12 then ''AM'' else ''PM''))
   \<and> (\<forall>h m. h < 24 \<and> m < 60 \<longrightarrow> strptime_HM (pad2 h @ '':'' @ pad2 m) = Some (h, m))
   \<and> (\<forall>v. v \<noteq> [] \<and> strptime_HM v = None \<longrightarrow> to_display_time v = v)"
proof (intro conjI allI impI)
  show "to_display_time [] = ''--''" by (simp add: to_display_time_def)
next
  fix v h m assume "strptime_HM v = Some (h, m)"
  then show "to_display_time v = pad2 (hour12 h) @ '':'' @ pad2 m @ (if h < 12 then ''AM'' else ''PM'')"
    by (rule to_display_time_parsed)
next
  fix h m :: nat assume "h < 24 \<and> m < 60"
  then show "strptime_HM (pad2 h @ '':'' @ pad2 m) = Some (h, m)"
    using strptime_HM_pad2 by blast
next
  fix v :: string assume "v \<noteq> [] \<and> strptime_HM v = None"
  then show "to_display_time v = v" by (simp add: to_display_time_def)
qed

theorem to_display_time_cases_witness:
  "to_display_time ''17:30'' = ''05:30PM'' \<and> to_display_time ''noon'' = ''noon''"
proof -
  have c: "17 < (24::nat) \<and> 30 < (60::nat)" by simp
  from to_display_time_cases c
  have p: "strptime_HM (pad2 17 @ '':'' @ pad2 30) = Some (17, 30)" by blast
  have e: "pad2 17 @ '':'' @ pad2 30 = ''17:30''"
    by (simp add: pad2_def digit_char_def) code_simp
  have d: "pad2 (hour12 17) @ '':'' @ pad2 30 @ ''PM'' = ''05:30PM''"
    by (simp add: pad2_def digit_char_def hour12_def) code_simp
  have n: "''noon'' \<noteq> [] \<and> strptime_HM ''noon'' = None" by code_simp
  from p e have "strptime_HM ''17:30'' = Some (17, 30)" by simp
  with to_display_time_cases d have "to_display_time ''17:30'' = ''05:30PM''" by auto
  moreover from to_display_time_cases n have "to_display_time ''noon'' = ''noon''" by blast
  ultimately show ?thesis by simp
qed

text \<open>
  Claim C7: for a valid 12-hour time (hour 1 to 12 written with or without a leading
  zero, minute 00 to 59, suffix AM or PM in any case, spaces allowed),
  \<open>to_display_time (to_24h x)\<close> is the 12-hour text of the same clock time: the same
  hour (zero-padded), the same minute and the same AM/PM.
\<close>

theorem display_of_to_24h_roundtrip:
  assumes "1 \<le> h" "h \<le> 12" "m < 60"
    and "hs = pad2 h \<or> (h < 10 \<and> hs = [digit_char h])"
    and "remove_spaces (upper (strip x)) = hs @ '':'' @ pad2 m @ (if pm then ''PM'' else ''AM'')"
  shows "to_display_time (to_24h x) = pad2 h @ '':'' @ pad2 m @ (if pm then ''PM'' else ''AM'')"
proof -
  have t: "to_24h x = pad2 (hour24 h pm) @ '':'' @ pad2 m"
    by (rule to_24h_cleaned_12h[OF assms])
  have "hour24 h pm < 24" using assms(1,2) by (rule hour24_props)
  then have "to_display_time (pad2 (hour24 h pm) @ '':'' @ pad2 m) =
      pad2 (hour12 (hour24 h pm)) @ '':'' @ pad2 m @ (if hour24 h pm < 12 then ''AM'' else ''PM'')"
    using assms(3) by (rule to_display_time_canon)
  then show ?thesis
    unfolding t hour24_props(2)[OF assms(1,2)] hour24_props(3)[OF assms(1,2)] by simp
qed

theorem display_of_to_24h_roundtrip_witness:
  "to_display_time (to_24h '' 9:05 pm'') = ''09:05PM''"
proof -
  have a: "(1::nat) \<le> 9" "(9::nat) \<le> 12" "(5::nat) < 60" by simp_all
  have b: "[digit_char 9] = pad2 9 \<or> ((9::nat) < 10 \<and> [digit_char 9] = [digit_char 9])" by simp
  have c: "remove_spaces (upper (strip '' 9:05 pm'')) =
      [digit_char 9] @ '':'' @ pad2 5 @ (if True then ''PM'' else ''AM'')"
    by code_simp
  have d: "pad2 9 @ '':'' @ pad2 5 @ (if True then ''PM'' else ''AM'') = ''09:05PM''"
    by code_simp
  from display_of_to_24h_roundtrip[OF a b c] d show ?thesis by simp
qed

end
